theory Spec2Isabelle
  imports Complex_Main "HOL-Library.Multiset" "HOL-Library.Sublist"
begin

section \<open>Strings and numbers of the source\<close>

text \<open>
  The source is TypeScript. Its strings are modelled as \<^typ>\<open>string\<close>, one \<^typ>\<open>char\<close>
  per code unit, for the code units below 256. Lengths, page numbers and byte sizes are
  \<^typ>\<open>nat\<close>.

  Its coordinates are numbers, that is IEEE 754 binary64 values. The finite ones are
  modelled as the \<^typ>\<open>real\<close>s they denote, and a subtraction of the source is the
  exact difference rounded to the nearest binary64 value, ties to even. A difference whose
  magnitude reaches \<open>2 ^ 1024\<close> is an infinity in the source; the infinities and NaN are not
  part of this model.
\<close>

definition pow2 :: "int \<Rightarrow> real" where
  "pow2 e = (if 0 \<le> e then 2 ^ nat e else 1 / 2 ^ nat (- e))"

fun exponentOf :: "nat \<Rightarrow> real \<Rightarrow> int" where
  \<comment> \<open>The binary exponent \<open>e\<close> of a positive number \<open>x\<close>, with \<open>2 ^ e \<le> x < 2 ^ (e + 1)\<close>,
      found by halving or doubling at most as often as the first argument says.\<close>
  "exponentOf 0 x = 0"
| "exponentOf (Suc fuel) x =
     (if 2 \<le> x then exponentOf fuel (x / 2) + 1
      else if x < 1 then exponentOf fuel (x * 2) - 1
      else 0)"

definition roundHalfEven :: "real \<Rightarrow> int" where
  \<comment> \<open>the nearest integer, the even one of the two when they are equally near\<close>
  "roundHalfEven q =
     (let f = \<lfloor>q\<rfloor>; d = q - of_int f
      in if d < 1 / 2 then f
         else if 1 / 2 < d then f + 1
         else if even f then f else f + 1)"

definition roundDouble :: "real \<Rightarrow> real" where
  \<comment> \<open>The nearest binary64 value: 53 significant bits above the exponent, which is
      -1022 at the least (the subnormal numbers share the spacing \<open>2 ^ -1074\<close>).
      1100 steps reach every exponent from -1022 to 1023.\<close>
  "roundDouble x =
     (if x = 0 then 0
      else
        let e = max (exponentOf 1100 \<bar>x\<bar>) (- 1022);
            ulp = pow2 (e - 52)
        in of_int (roundHalfEven (x / ulp)) * ulp)"

definition doubleSub :: "real \<Rightarrow> real \<Rightarrow> real" where
  \<comment> \<open>\<open>a - b\<close> on numbers\<close>
  "doubleSub a b = roundDouble (a - b)"

definition isWhiteSpace :: "char \<Rightarrow> bool" where
  \<comment> \<open>The white space and line terminators that \<open>String.prototype.trim\<close> strips:
      TAB, LF, VT, FF, CR, SPACE and NBSP.\<close>
  "isWhiteSpace c = ((of_char c :: nat) \<in> set [9, 10, 11, 12, 13, 32, 160])"

definition trim :: "string \<Rightarrow> string" where
  "trim s = rev (dropWhile isWhiteSpace (rev (dropWhile isWhiteSpace s)))"

fun join :: "string \<Rightarrow> string list \<Rightarrow> string" where
  \<comment> \<open>\<open>Array.prototype.join\<close>\<close>
  "join sep [] = []"
| "join sep [s] = s"
| "join sep (s # t # ts) = s @ sep @ join sep (t # ts)"

definition elemAt :: "'a list \<Rightarrow> nat \<Rightarrow> 'a option" where
  \<comment> \<open>\<open>xs[i]\<close>: reading past the end of an array gives \<open>undefined\<close>, here \<open>None\<close>.\<close>
  "elemAt xs i = (if i < length xs then Some (xs ! i) else None)"

definition toLowerCaseChar :: "char \<Rightarrow> char" where
  "toLowerCaseChar c =
     (let n = (of_char c :: nat)
      in if (65 \<le> n \<and> n \<le> 90) \<or> (192 \<le> n \<and> n \<le> 222 \<and> n \<noteq> 215)
         then char_of (n + 32) else c)"

definition toLowerCase :: "string \<Rightarrow> string" where
  "toLowerCase s = map toLowerCaseChar s"

definition endsWith :: "string \<Rightarrow> string \<Rightarrow> bool" where
  "endsWith s suf = (length suf \<le> length s \<and> drop (length s - length suf) s = suf)"

fun includesStr :: "string \<Rightarrow> string \<Rightarrow> bool" where
  \<comment> \<open>\<open>String.prototype.includes\<close>: the second string occurs somewhere in the first.\<close>
  "includesStr [] sub = (sub = [])"
| "includesStr (c # cs) sub = (prefix sub (c # cs) \<or> includesStr cs sub)"

fun digitsOf :: "nat \<Rightarrow> string" where
  \<comment> \<open>the decimal numeral that a template literal prints for a page number\<close>
  "digitsOf n =
     (if n < 10 then [char_of (48 + n)]
      else digitsOf (n div 10) @ [char_of (48 + n mod 10)])"

declare digitsOf.simps [simp del]

section \<open>The PDF backend as the source declares it\<close>

datatype rejection = Rejected string
  \<comment> \<open>a promise of the backend that rejects; \<open>await\<close> rethrows it\<close>

record Transform =
  \<comment> \<open>\<open>transform: number[]\<close>, the six entries the source's comment names;
      \<open>transform[4]\<close> is \<open>translateX\<close> and \<open>transform[5]\<close> is \<open>translateY\<close>\<close>
  scaleX :: real
  skewX :: real
  skewY :: real
  scaleY :: real
  translateX :: real
  translateY :: real

record PDFTextItem =
  str :: string
  transform :: Transform
  hasEOL :: "bool option"   \<comment> \<open>\<open>hasEOL?: boolean\<close>; \<open>None\<close> is an absent field\<close>

record PDFTextContent =
  items :: "PDFTextItem list"

record PDFPageProxy =
  getTextContent :: "rejection + PDFTextContent"
  getViewport :: "real \<Rightarrow> real"   \<comment> \<open>the height of the viewport at a scale\<close>

record PDFDocumentProxy =
  numPages :: nat
  getPage :: "nat \<Rightarrow> rejection + PDFPageProxy"

section \<open>extractPageText\<close>

record Positioned =
  run_text :: string
  run_x :: real
  run_y :: real
  run_hasEOL :: bool

record LineItem =
  item_x :: real
  item_text :: string

record TextLine =
  line_y :: real
  line_items :: "LineItem list"

definition keepItem :: "PDFTextItem \<Rightarrow> bool" where
  \<comment> \<open>\<open>item.str.trim().length > 0 || item.hasEOL\<close>\<close>
  "keepItem item = (length (trim (str item)) > 0 \<or> hasEOL item = Some True)"

definition toPositioned :: "real \<Rightarrow> PDFTextItem \<Rightarrow> Positioned" where
  "toPositioned pageHeight item =
     \<lparr> run_text = str item,
       run_x = translateX (transform item),
       run_y = doubleSub pageHeight (translateY (transform item)),
       run_hasEOL = (hasEOL item = Some True) \<rparr>"

definition positionedRuns :: "real \<Rightarrow> PDFTextItem list \<Rightarrow> Positioned list" where
  "positionedRuns pageHeight its = map (toPositioned pageHeight) (filter keepItem its)"

definition LINE_THRESHOLD :: real where
  "LINE_THRESHOLD = 3"

definition lineItemOf :: "Positioned \<Rightarrow> LineItem" where
  "lineItemOf item = \<lparr> item_x = run_x item, item_text = run_text item \<rparr>"

fun pushToLine :: "Positioned \<Rightarrow> TextLine list \<Rightarrow> TextLine list option" where
  \<comment> \<open>The inner loop over \<open>lines\<close>: the first line within the threshold takes the run and
      the loop breaks; \<open>None\<close> is \<open>foundLine\<close> still false at the end.\<close>
  "pushToLine item [] = None"
| "pushToLine item (line # rest) =
     (if \<bar>doubleSub (line_y line) (run_y item)\<bar> < LINE_THRESHOLD
      then Some (line\<lparr>line_items := line_items line @ [lineItemOf item]\<rparr> # rest)
      else map_option ((#) line) (pushToLine item rest))"

definition placeRun :: "TextLine list \<Rightarrow> Positioned \<Rightarrow> TextLine list" where
  \<comment> \<open>one pass of the outer loop over \<open>positioned\<close>\<close>
  "placeRun lines item =
     (case pushToLine item lines of
        Some lines' \<Rightarrow> lines'
      | None \<Rightarrow> lines @ [\<lparr> line_y = run_y item, line_items = [lineItemOf item] \<rparr>])"

definition groupIntoLines :: "Positioned list \<Rightarrow> TextLine list" where
  "groupIntoLines positioned = foldl placeRun [] positioned"

definition sortLines :: "TextLine list \<Rightarrow> TextLine list" where
  \<comment> \<open>\<open>lines.sort((a, b) => a.y - b.y)\<close>: the sort of an array is stable, and the
      rounded difference of two finite numbers is negative, zero or positive as the first
      is below, equal to or above the second\<close>
  "sortLines lines = sort_key line_y lines"

definition sortItems :: "TextLine \<Rightarrow> TextLine" where
  \<comment> \<open>\<open>line.items.sort((a, b) => a.x - b.x)\<close>, stable and by the sign of the rounded
      difference as well\<close>
  "sortItems line = line\<lparr>line_items := sort_key item_x (line_items line)\<rparr>"

definition reconstructLines :: "Positioned list \<Rightarrow> TextLine list" where
  "reconstructLines positioned = map sortItems (sortLines (groupIntoLines positioned))"

definition textOfLine :: "TextLine \<Rightarrow> string" where
  \<comment> \<open>\<open>line.items.map((item) => item.text).join(" ").trim()\<close>\<close>
  "textOfLine line = trim (join '' '' (map item_text (line_items line)))"

definition lineTextsOf :: "TextLine list \<Rightarrow> string list" where
  "lineTextsOf lines = filter (\<lambda>t. length t > 0) (map textOfLine lines)"

definition PARAGRAPH_GAP :: real where
  "PARAGRAPH_GAP = 10"

definition paragraphStep ::
  "TextLine list \<Rightarrow> string list \<Rightarrow> string list \<times> string \<Rightarrow> nat \<Rightarrow> string list \<times> string" where
  \<comment> \<open>The body of the loop \<open>for (let i = 1; i < lines.length; i++)\<close> on the state
      \<open>(paragraphs, currentParagraph)\<close>. \<open>lineTexts[i]\<close> is \<open>undefined\<close> past the end of
      \<open>lineTexts\<close>; \<open>!lineText\<close> holds for \<open>undefined\<close> and for the empty string.\<close>
  "paragraphStep lines lineTexts st i =
     (case elemAt lineTexts i of
        None \<Rightarrow> st
      | Some lineText \<Rightarrow>
          if lineText = [] then st
          else
            let gap = doubleSub (line_y (lines ! i)) (line_y (lines ! (i - 1)))
            in if gap > PARAGRAPH_GAP
               then (fst st @ [snd st], lineText)
               else (fst st, snd st @ '' '' @ lineText))"

definition formParagraphs :: "TextLine list \<Rightarrow> string list" where
  "formParagraphs lines =
     (let lineTexts = lineTextsOf lines
      in if length lineTexts = 0 then []
         else
           let st = foldl (paragraphStep lines lineTexts) ([], lineTexts ! 0) [1..<length lines]
           in if snd st \<noteq> [] then fst st @ [snd st] else fst st)"

definition extractPageText :: "PDFPageProxy \<Rightarrow> rejection + string list" where
  "extractPageText page =
     (case getTextContent page of
        Inl e \<Rightarrow> Inl e
      | Inr textContent \<Rightarrow>
          let pageHeight = getViewport page 1
          in if length (items textContent) = 0 then Inr []
             else
               let positioned = positionedRuns pageHeight (items textContent)
               in if length positioned = 0 then Inr []
                  else Inr (formParagraphs (reconstructLines positioned)))"

section \<open>convertPdfToWord\<close>

datatype Stage = extracting | generating

record ConversionProgress =
  currentPage :: nat
  totalPages :: nat
  stage :: Stage

datatype Event =
    OnProgress ConversionProgress   \<comment> \<open>a call of the progress callback\<close>
  | PageRequested nat               \<comment> \<open>\<open>pdf.getPage(i)\<close>, where the extraction of page \<open>i\<close> begins\<close>

definition emit :: "bool \<Rightarrow> ConversionProgress \<Rightarrow> Event list" where
  \<comment> \<open>\<open>onProgress?.(progress)\<close>: a call when a callback was supplied, nothing otherwise\<close>
  "emit supplied progress = (if supplied then [OnProgress progress] else [])"

fun extractAllPages ::
  "bool \<Rightarrow> PDFDocumentProxy \<Rightarrow> nat list \<Rightarrow> Event list \<Rightarrow> string list list
     \<Rightarrow> Event list \<times> (rejection + string list list)" where
  \<comment> \<open>The loop \<open>for (let i = 1; i <= totalPages; i++)\<close> over its page numbers, on the
      trace of events so far and \<open>allPageTexts\<close>. A rejected \<open>await\<close> leaves the loop.\<close>
  "extractAllPages supplied pdf [] trace allPageTexts = (trace, Inr allPageTexts)"
| "extractAllPages supplied pdf (i # rest) trace allPageTexts =
     (let trace' = trace
            @ emit supplied \<lparr> currentPage = i, totalPages = numPages pdf, stage = extracting \<rparr>
            @ [PageRequested i]
      in case getPage pdf i of
           Inl e \<Rightarrow> (trace', Inl e)
         | Inr page \<Rightarrow>
             (case extractPageText page of
                Inl e \<Rightarrow> (trace', Inl e)
              | Inr paragraphs \<Rightarrow>
                  extractAllPages supplied pdf rest trace' (allPageTexts @ [paragraphs])))"

record TextRunOptions =
  text_of :: string                 \<comment> \<open>\<open>text\<close>\<close>
  italics :: "bool option"
  color :: "string option"

datatype ParagraphChild = TextRun TextRunOptions | PageBreak

record Paragraph =
  children :: "ParagraphChild list"
  spacing_after :: "nat option"     \<comment> \<open>\<open>spacing: { after: n }\<close>\<close>

record Document =
  sections :: "Paragraph list list" \<comment> \<open>each section's \<open>children\<close>\<close>

definition noTextParagraph :: "nat \<Rightarrow> Paragraph" where
  \<comment> \<open>the note for an empty page, \<open>n\<close> being \<open>pageIdx + 1\<close>\<close>
  "noTextParagraph n =
     \<lparr> children =
         [TextRun \<lparr> text_of = ''[Strona '' @ digitsOf n @ '' - brak tekstu]'',
                    italics = Some True, color = Some ''999999'' \<rparr>],
       spacing_after = None \<rparr>"

definition textParagraph :: "string \<Rightarrow> Paragraph" where
  "textParagraph t =
     \<lparr> children = [TextRun \<lparr> text_of = t, italics = None, color = None \<rparr>],
       spacing_after = Some 120 \<rparr>"

definition pageBreakParagraph :: Paragraph where
  "pageBreakParagraph = \<lparr> children = [PageBreak], spacing_after = None \<rparr>"

definition assemblePage :: "string list list \<Rightarrow> Paragraph list \<Rightarrow> nat \<Rightarrow> Paragraph list" where
  \<comment> \<open>The body of the loop over \<open>pageIdx\<close>, on \<open>children\<close>. The index is below
      \<open>allPageTexts.length\<close>, the loop's bound.\<close>
  "assemblePage allPageTexts children0 pageIdx =
     (let pageParagraphs = allPageTexts ! pageIdx;
          children1 =
            (if length pageParagraphs = 0
             then children0 @ [noTextParagraph (pageIdx + 1)]
             else foldl (\<lambda>acc t. acc @ [textParagraph t]) children0 pageParagraphs)
      in if int pageIdx < int (length allPageTexts) - 1
         then children1 @ [pageBreakParagraph]
         else children1)"

definition assembleChildren :: "string list list \<Rightarrow> Paragraph list" where
  "assembleChildren allPageTexts =
     foldl (assemblePage allPageTexts) [] [0..<length allPageTexts]"

definition convertPdfToWord :: "bool \<Rightarrow> PDFDocumentProxy \<Rightarrow> Event list \<times> (rejection + Document)" where
  \<comment> \<open>From \<open>const totalPages = pdf.numPages\<close> to the document handed to the packer:
      \<open>pdf\<close> is the document that the backend opened, the first argument says whether
      \<open>onProgress\<close> was supplied.\<close>
  "convertPdfToWord supplied pdf =
     (let totalPages = numPages pdf
      in case extractAllPages supplied pdf [1..<Suc totalPages] [] [] of
           (trace, Inl e) \<Rightarrow> (trace, Inl e)
         | (trace, Inr allPageTexts) \<Rightarrow>
             (trace @ emit supplied
                        \<lparr> currentPage = totalPages, totalPages = totalPages, stage = generating \<rparr>,
              Inr \<lparr> sections = [assembleChildren allPageTexts] \<rparr>))"

section \<open>validatePdfFile\<close>

record File =
  file_name :: string   \<comment> \<open>\<open>name\<close>\<close>
  file_type :: string   \<comment> \<open>\<open>type\<close>\<close>
  file_size :: nat      \<comment> \<open>\<open>size\<close>, in bytes\<close>

datatype ValidationError =
    NotPdf     \<comment> \<open>the message that the file must be in PDF format\<close>
  | TooLarge   \<comment> \<open>the message that the file is too large (max 50 MB)\<close>

record ValidationResult =
  valid :: bool
  error :: "ValidationError option"

definition validatePdfFile :: "File \<Rightarrow> ValidationResult" where
  "validatePdfFile file =
     (let maxSize = 50 * 1024 * 1024
      in if \<not> includesStr (file_type file) ''pdf''
            \<and> \<not> endsWith (toLowerCase (file_name file)) ''.pdf''
         then \<lparr> valid = False, error = Some NotPdf \<rparr>
         else if file_size file > maxSize
         then \<lparr> valid = False, error = Some TooLarge \<rparr>
         else \<lparr> valid = True, error = None \<rparr>)"

section \<open>Concrete pages and documents\<close>

definition textItem :: "string \<Rightarrow> real \<Rightarrow> real \<Rightarrow> bool option \<Rightarrow> PDFTextItem" where
  \<comment> \<open>an unscaled text item placed at \<open>(tx, ty)\<close>\<close>
  "textItem s tx ty eol =
     \<lparr> str = s,
       transform = \<lparr> scaleX = 1, skewX = 0, skewY = 0, scaleY = 1, translateX = tx, translateY = ty \<rparr>,
       hasEOL = eol \<rparr>"

definition pageOf :: "PDFTextItem list \<Rightarrow> PDFPageProxy" where
  \<comment> \<open>a page 100 units high at scale 1 with the given text items\<close>
  "pageOf its = \<lparr> getTextContent = Inr \<lparr> items = its \<rparr>, getViewport = (\<lambda>scale. 100 * scale) \<rparr>"

definition threeLinePage :: PDFPageProxy where
  \<comment> \<open>lines at Y = 0, 5 and 20\<close>
  "threeLinePage =
     pageOf [textItem ''x'' 0 100 None, textItem ''y'' 0 95 None, textItem ''z'' 0 80 None]"

definition blankLinePage :: PDFPageProxy where
  \<comment> \<open>text at Y = 0 and Y = 20 with a blank line, an end-of-line item without text, at Y = 5\<close>
  "blankLinePage =
     pageOf [textItem ''a'' 0 100 None, textItem [] 0 95 (Some True), textItem ''b'' 0 80 None]"

definition blankOnlyPage :: PDFPageProxy where
  \<comment> \<open>only items without text and without an end-of-line hint\<close>
  "blankOnlyPage = pageOf [textItem '' '' 0 100 None, textItem [] 5 90 (Some False)]"

definition blankTopPage :: PDFPageProxy where
  \<comment> \<open>a blank line, an end-of-line item without text, at Y = 0 and text at Y = 20 and
      Y = 25\<close>
  "blankTopPage =
     pageOf [textItem [] 0 100 (Some True), textItem ''a'' 0 80 None, textItem ''b'' 0 75 None]"

definition helloPage :: PDFPageProxy where
  "helloPage = pageOf [textItem ''Hello'' 10 100 None, textItem ''world'' 50 100 None]"

definition twoPageDocument :: PDFDocumentProxy where
  \<comment> \<open>page 1 reads "Hello world", page 2 has no text items\<close>
  "twoPageDocument =
     \<lparr> numPages = 2,
       getPage = (\<lambda>i. if i = 1 then Inr helloPage
                       else if i = 2 then Inr (pageOf [])
                       else Inl (Rejected ''Invalid page request'')) \<rparr>"


definition abcPage :: PDFPageProxy where
  \<comment> \<open>a heading at Y = 10 and, at Y = 50, three runs out of order\<close>
  "abcPage =
     pageOf [textItem ''c'' 30 50 None, textItem ''a'' 10 50 None,
             textItem ''top'' 0 90 None, textItem ''b'' 20 50 None]"

section \<open>Paragraph formation as the specification words it\<close>

fun spec_continue :: "real \<Rightarrow> string \<Rightarrow> (real \<times> string) list \<Rightarrow> string list" where
  \<comment> \<open>The lines after the first, given the Y of the previous line that had text and the
      accumulator: a line without text is skipped entirely; a gap above 10 closes the
      accumulator and starts a new one with the line; otherwise the line's text is
      appended after a space; at the end a non-empty accumulator is flushed.\<close>
  "spec_continue prevY acc [] = (if acc = [] then [] else [acc])"
| "spec_continue prevY acc ((lineY, t) # rest) =
     (if t = [] then spec_continue prevY acc rest
      else if lineY - prevY > 10 then acc # spec_continue lineY t rest
      else spec_continue lineY (acc @ '' '' @ t) rest)"

fun spec_paragraphs :: "(real \<times> string) list \<Rightarrow> string list" where
  \<comment> \<open>The paragraphs of a page's lines, each given as its Y and its text: the first line
      that has text starts the first accumulator.\<close>
  "spec_paragraphs [] = []"
| "spec_paragraphs ((lineY, t) # rest) =
     (if t = [] then spec_paragraphs rest else spec_continue lineY t rest)"

definition linesOfPage :: "PDFPageProxy \<Rightarrow> TextLine list" where
  \<comment> \<open>the sorted lines that \<open>extractPageText\<close> reconstructs from a page whose content loads\<close>
  "linesOfPage page =
     (case getTextContent page of
        Inl e \<Rightarrow> []
      | Inr textContent \<Rightarrow>
          reconstructLines (positionedRuns (getViewport page 1) (items textContent)))"

definition decimalValue :: "string \<Rightarrow> nat" where
  \<comment> \<open>the number that a string of decimal digits denotes\<close>
  "decimalValue s = foldl (\<lambda>acc c. 10 * acc + (of_char c - 48)) 0 s"

definition isPageBreakMarker :: "Paragraph \<Rightarrow> bool" where
  \<comment> \<open>a block of the document that holds a page break\<close>
  "isPageBreakMarker p = (PageBreak \<in> set (children p))"

definition blocksOfPage :: "nat \<Rightarrow> string list \<Rightarrow> Paragraph list" where
  \<comment> \<open>The text blocks that the specification gives page \<open>n\<close> (counted from 1): the one
      placeholder when the page has no paragraph, one text block per paragraph otherwise.\<close>
  "blocksOfPage n pageParagraphs =
     (if pageParagraphs = [] then [noTextParagraph n] else map textParagraph pageParagraphs)"

definition pageExtracts :: "PDFDocumentProxy \<Rightarrow> nat \<Rightarrow> string list \<Rightarrow> bool" where
  \<comment> \<open>page \<open>i\<close> of the document loads and \<open>extractPageText\<close> returns these paragraphs for it\<close>
  "pageExtracts pdf i paragraphs =
     (case getPage pdf i of
        Inl e \<Rightarrow> False
      | Inr page \<Rightarrow> extractPageText page = Inr paragraphs)"


section \<open>Paragraphs are never empty\<close>

lemma paragraphStep_nonempty:
  assumes "[] \<notin> set (fst st)" and "snd st \<noteq> []"
  shows "[] \<notin> set (fst (paragraphStep lines lineTexts st i))
         \<and> snd (paragraphStep lines lineTexts st i) \<noteq> []"
  using assms by (auto simp: paragraphStep_def Let_def split: option.splits)

lemma foldl_paragraphStep_nonempty:
  "[] \<notin> set (fst st) \<Longrightarrow> snd st \<noteq> [] \<Longrightarrow>
     [] \<notin> set (fst (foldl (paragraphStep lines lineTexts) st is))
     \<and> snd (foldl (paragraphStep lines lineTexts) st is) \<noteq> []"
proof (induction "is" arbitrary: st)
  case Nil
  then show ?case by simp
next
  case (Cons i "is")
  from paragraphStep_nonempty [OF Cons.prems]
  have "[] \<notin> set (fst (paragraphStep lines lineTexts st i))"
    and "snd (paragraphStep lines lineTexts st i) \<noteq> []" by simp_all
  from Cons.IH [OF this] show ?case by simp
qed

lemma lineTextsOf_nonempty: "t \<in> set (lineTextsOf lines) \<Longrightarrow> t \<noteq> []"
  by (auto simp: lineTextsOf_def)

lemma formParagraphs_nonempty: "[] \<notin> set (formParagraphs lines)"
proof (cases "lineTextsOf lines = []")
  case True
  then show ?thesis by (simp add: formParagraphs_def)
next
  case False
  then have "lineTextsOf lines ! 0 \<in> set (lineTextsOf lines)" by simp
  then have first: "lineTextsOf lines ! 0 \<noteq> []" by (rule lineTextsOf_nonempty)
  let ?st = "foldl (paragraphStep lines (lineTextsOf lines)) ([], lineTextsOf lines ! 0)
               [1..<length lines]"
  from first
    foldl_paragraphStep_nonempty
      [of "([], lineTextsOf lines ! 0)" lines "lineTextsOf lines" "[1..<length lines]"]
  have "[] \<notin> set (fst ?st)" and "snd ?st \<noteq> []" by simp_all
  with False show ?thesis by (simp add: formParagraphs_def Let_def)
qed

lemma extractPageText_threeLinePage: "extractPageText threeLinePage = Inr [''x y'', ''z'']"
  by code_simp

text \<open>
  C9. Whatever the page, no paragraph in the list that \<open>extractPageText\<close> returns is the
  empty string: the accumulator starts from a line text that passed the filter and only
  grows, and only the accumulator is ever pushed.
\<close>

theorem extractPageText_paragraphs_nonempty:
  "extractPageText page = Inr paragraphs \<Longrightarrow> [] \<notin> set paragraphs"
  using formParagraphs_nonempty
  by (auto simp: extractPageText_def Let_def split: sum.splits if_splits)

theorem extractPageText_paragraphs_nonempty_witness:
  "extractPageText threeLinePage = Inr [''x y'', ''z''] \<and> [] \<notin> set [''x y'', ''z'']"
  using extractPageText_paragraphs_nonempty [OF extractPageText_threeLinePage]
    extractPageText_threeLinePage
  by simp

section \<open>The size ceiling of validatePdfFile\<close>

lemma endsWith_report: "endsWith (toLowerCase ''Report.PDF'') ''.pdf''"
  by code_simp

text \<open>
  C10. A file whose lower-cased name ends with \<open>.pdf\<close> and whose size is exactly
  \<open>50 * 1024 * 1024\<close> bytes is valid, and the size error is returned exactly for the files
  that pass the format test and are strictly larger than that.
\<close>

theorem validatePdfFile_size_ceiling:
  "(endsWith (toLowerCase (file_name file)) ''.pdf'' \<and> file_size file = 50 * 1024 * 1024
      \<longrightarrow> validatePdfFile file = \<lparr> valid = True, error = None \<rparr>)
   \<and> (error (validatePdfFile file) = Some TooLarge
        \<longleftrightarrow> (includesStr (file_type file) ''pdf''
               \<or> endsWith (toLowerCase (file_name file)) ''.pdf'')
            \<and> file_size file > 50 * 1024 * 1024)"
  by (simp add: validatePdfFile_def Let_def)

theorem validatePdfFile_size_ceiling_witness:
  "endsWith (toLowerCase ''Report.PDF'') ''.pdf''
   \<and> validatePdfFile \<lparr> file_name = ''Report.PDF'', file_type = [], file_size = 52428800 \<rparr>
       = \<lparr> valid = True, error = None \<rparr>
   \<and> error (validatePdfFile \<lparr> file_name = ''Report.PDF'', file_type = [], file_size = 52428801 \<rparr>)
       = Some TooLarge"
  using
    validatePdfFile_size_ceiling
      [of "\<lparr> file_name = ''Report.PDF'', file_type = [], file_size = 52428800 \<rparr>"]
    validatePdfFile_size_ceiling
      [of "\<lparr> file_name = ''Report.PDF'', file_type = [], file_size = 52428801 \<rparr>"]
  by (simp add: endsWith_report)

section \<open>Blank runs and empty pages\<close>

lemma extractPageText_blankOnlyPage: "extractPageText blankOnlyPage = Inr []"
  by code_simp

lemma blankOnlyPage_content:
  "getTextContent blankOnlyPage
     = Inr \<lparr> items = [textItem '' '' 0 100 None, textItem [] 5 90 (Some False)] \<rparr>"
  by (simp add: blankOnlyPage_def pageOf_def)

lemma toPositioned_kept: "keepItem item \<Longrightarrow> trim (run_text (toPositioned h item)) \<noteq> [] \<or> run_hasEOL (toPositioned h item)"
  by (auto simp: keepItem_def toPositioned_def)

text \<open>
  C8. The runs that reach line reconstruction are the items that have text after trimming
  or carry the end-of-line hint; an item with neither is discarded. A page whose content
  has no item, or only items that the filter discards, makes \<open>extractPageText\<close> return
  the empty list, not a rejection.
\<close>

theorem extractPageText_discards_blank_runs:
  "positionedRuns h its
     = map (toPositioned h)
         (filter (\<lambda>item. \<not> (trim (str item) = [] \<and> hasEOL item \<noteq> Some True)) its)
   \<and> (\<forall>item \<in> set its. trim (str item) = [] \<and> hasEOL item \<noteq> Some True
         \<longrightarrow> toPositioned h item \<notin> set (positionedRuns h its))
   \<and> (getTextContent page = Inr textContent
        \<and> (\<forall>item \<in> set (items textContent). trim (str item) = [] \<and> hasEOL item \<noteq> Some True)
        \<longrightarrow> extractPageText page = Inr [])"
proof (intro conjI)
  show "positionedRuns h its
     = map (toPositioned h)
         (filter (\<lambda>item. \<not> (trim (str item) = [] \<and> hasEOL item \<noteq> Some True)) its)"
  proof -
    have "keepItem = (\<lambda>item. \<not> (trim (str item) = [] \<and> hasEOL item \<noteq> Some True))"
      by (auto simp: keepItem_def fun_eq_iff)
    then show ?thesis by (simp add: positionedRuns_def)
  qed
  show "\<forall>item \<in> set its. trim (str item) = [] \<and> hasEOL item \<noteq> Some True
         \<longrightarrow> toPositioned h item \<notin> set (positionedRuns h its)"
  proof (intro ballI impI)
    fix item assume "item \<in> set its" and blank: "trim (str item) = [] \<and> hasEOL item \<noteq> Some True"
    show "toPositioned h item \<notin> set (positionedRuns h its)"
    proof
      assume "toPositioned h item \<in> set (positionedRuns h its)"
      then obtain item' where "keepItem item'" and eq: "toPositioned h item = toPositioned h item'"
        by (auto simp: positionedRuns_def)
      from toPositioned_kept [OF this(1), of h] eq blank show False
        by (auto simp: toPositioned_def)
    qed
  qed
  show "getTextContent page = Inr textContent
        \<and> (\<forall>item \<in> set (items textContent). trim (str item) = [] \<and> hasEOL item \<noteq> Some True)
        \<longrightarrow> extractPageText page = Inr []"
  proof
    assume a: "getTextContent page = Inr textContent
        \<and> (\<forall>item \<in> set (items textContent). trim (str item) = [] \<and> hasEOL item \<noteq> Some True)"
    then have "filter keepItem (items textContent) = []"
      by (auto simp: keepItem_def filter_empty_conv)
    with a show "extractPageText page = Inr []"
      by (simp add: extractPageText_def positionedRuns_def Let_def)
  qed
qed

lemma trim_blank: "trim '' '' = []" "trim [] = []"
  by (simp_all add: trim_def isWhiteSpace_def)

theorem extractPageText_discards_blank_runs_witness:
  "positionedRuns 100 [textItem '' '' 0 100 None, textItem [] 5 90 (Some False)] = []
   \<and> extractPageText blankOnlyPage = Inr []
   \<and> extractPageText (pageOf []) = Inr []"
  using
    extractPageText_discards_blank_runs
      [of 100 "[textItem '' '' 0 100 None, textItem [] 5 90 (Some False)]" blankOnlyPage
          "\<lparr> items = [textItem '' '' 0 100 None, textItem [] 5 90 (Some False)] \<rparr>"]
    extractPageText_discards_blank_runs
      [of 100 "[]" "pageOf []" "\<lparr> items = [] \<rparr>"]
  by (simp add: blankOnlyPage_content textItem_def trim_blank pageOf_def)

section \<open>Line clustering\<close>

lemma doubleSub_boundary:
  "doubleSub 4 (1 + 1 / 2 ^ 52) = 3"
  "doubleSub 12 (2 - 1 / 2 ^ 52) = 10"
  "doubleSub (doubleSub 100 (roundDouble (261 / 10))) (doubleSub 100 (roundDouble (361 / 10)))
     = 10 + 1 / 2 ^ 47"
  by code_simp+

text \<open>
  Two pages on which rounding decides. With \<open>transform[5]\<close> the numbers nearest to
  36.1 and 26.1 the lines are computed \<open>10 + 2 ^ -47\<close> apart and form two paragraphs;
  with those nearest to 36.4 and 33.4 the two runs are computed less than 3 apart and
  share a line.
\<close>

lemma extractPageText_rounded:
  "extractPageText
     (pageOf [textItem ''p'' 0 (roundDouble (361 / 10)) None,
              textItem ''q'' 0 (roundDouble (261 / 10)) None])
     = Inr [''p'', ''q'']"
  "extractPageText
     (pageOf [textItem ''p'' 0 (roundDouble (364 / 10)) None,
              textItem ''q'' 10 (roundDouble (334 / 10)) None])
     = Inr [''p q'']"
  by code_simp+

lemma pushToLine_first_fit:
  assumes "k < length lines"
    and "\<bar>doubleSub (line_y (lines ! k)) (run_y r)\<bar> < 3"
    and "\<forall>j<k. \<not> \<bar>doubleSub (line_y (lines ! j)) (run_y r)\<bar> < 3"
  shows "pushToLine r lines
           = Some (lines[k := (lines ! k)\<lparr>line_items := line_items (lines ! k) @ [lineItemOf r]\<rparr>])"
  using assms
proof (induction lines arbitrary: k)
  case Nil
  then show ?case by simp
next
  case (Cons line rest)
  show ?case
  proof (cases k)
    case 0
    with Cons.prems show ?thesis by (simp add: LINE_THRESHOLD_def)
  next
    case (Suc k')
    with Cons.prems have far: "\<not> \<bar>doubleSub (line_y line) (run_y r)\<bar> < 3" by auto
    from Suc Cons.prems have "k' < length rest"
      "\<bar>doubleSub (line_y (rest ! k')) (run_y r)\<bar> < 3"
      "\<forall>j<k'. \<not> \<bar>doubleSub (line_y (rest ! j)) (run_y r)\<bar> < 3" by auto
    from Cons.IH [OF this] far Suc show ?thesis by (simp add: LINE_THRESHOLD_def)
  qed
qed

lemma pushToLine_no_fit:
  "\<forall>k<length lines. \<not> \<bar>doubleSub (line_y (lines ! k)) (run_y r)\<bar> < 3 \<Longrightarrow>
     pushToLine r lines = None"
proof (induction lines)
  case Nil
  then show ?case by simp
next
  case (Cons line rest)
  from Cons.prems have "\<not> \<bar>doubleSub (line_y line) (run_y r)\<bar> < 3" by auto
  moreover from Cons.prems
  have "\<forall>k<length rest. \<not> \<bar>doubleSub (line_y (rest ! k)) (run_y r)\<bar> < 3" by auto
  ultimately show ?case using Cons.IH by (simp add: LINE_THRESHOLD_def)
qed

lemma pushToLine_keeps_y:
  "pushToLine r lines = Some lines' \<Longrightarrow> map line_y lines' = map line_y lines"
  by (induction lines arbitrary: lines') (auto split: if_splits)

lemma placeRun_line_y:
  "map line_y (placeRun lines r) = map line_y lines
   \<or> map line_y (placeRun lines r) = map line_y lines @ [run_y r]"
  by (auto simp: placeRun_def dest: pushToLine_keeps_y split: option.splits)

lemma placeRun_prefix: "prefix (map line_y lines) (map line_y (placeRun lines r))"
  using placeRun_line_y [of lines r] by auto

lemma foldl_placeRun_prefix: "prefix (map line_y lines) (map line_y (foldl placeRun lines later))"
proof (induction later arbitrary: lines)
  case Nil
  then show ?case by simp
next
  case (Cons r later)
  have "prefix (map line_y lines) (map line_y (placeRun lines r))" by (rule placeRun_prefix)
  also have "prefix \<dots> (map line_y (foldl placeRun (placeRun lines r) later))" by (rule Cons.IH)
  finally show ?case by simp
qed

text \<open>
  C2, as stated, fails where the subtraction rounds. On a page 2 units high, a run with
  \<open>transform[5] = -2\<close> opens a line at Y = 4; the next run, with
  \<open>transform[5] = 1 - 2 ^ -52\<close>, lies at Y = \<open>1 + 2 ^ -52\<close>, which differs from 4 by
  strictly less than 3. The source computes the difference as exactly 3, and the run
  opens a second line instead of joining the first.
\<close>

theorem groupIntoLines_first_fit_counterexample:
  "\<bar>(4::real) - (1 + 1 / 2 ^ 52)\<bar> < 3
   \<and> groupIntoLines
        (positionedRuns 2
           [textItem ''a'' 0 (- 2) None, textItem ''b'' 0 (1 - 1 / 2 ^ 52) None])
       = [\<lparr> line_y = 4, line_items = [\<lparr> item_x = 0, item_text = ''a'' \<rparr>] \<rparr>,
          \<lparr> line_y = 1 + 1 / 2 ^ 52, line_items = [\<lparr> item_x = 0, item_text = ''b'' \<rparr>] \<rparr>]"
  by code_simp

text \<open>
  C2, amended. Line clustering is greedy first-fit with a fixed representative. The runs
  are placed one after the other in input order. A run joins the first line for which
  the difference of the line's representative Y and the run's Y, as the source computes
  it (rounded to the nearest number), is strictly less than 3 in absolute value, and is
  appended to that line's items; when there is no such line, a new line is added at the
  end, with the run's Y as its representative. The representative Ys of the lines that
  exist are never changed by the runs placed later: the list of them only grows at the
  end.
\<close>

theorem groupIntoLines_first_fit:
  "groupIntoLines [] = []
   \<and> groupIntoLines (runs @ [r]) = placeRun (groupIntoLines runs) r
   \<and> (\<forall>k<length lines.
         \<bar>doubleSub (line_y (lines ! k)) (run_y r)\<bar> < 3
           \<and> (\<forall>j<k. \<not> \<bar>doubleSub (line_y (lines ! j)) (run_y r)\<bar> < 3)
         \<longrightarrow> placeRun lines r
               = lines[k := (lines ! k)\<lparr>line_items := line_items (lines ! k) @ [lineItemOf r]\<rparr>])
   \<and> ((\<forall>k<length lines. \<not> \<bar>doubleSub (line_y (lines ! k)) (run_y r)\<bar> < 3)
         \<longrightarrow> placeRun lines r = lines @ [\<lparr> line_y = run_y r, line_items = [lineItemOf r] \<rparr>])
   \<and> prefix (map line_y (groupIntoLines runs)) (map line_y (groupIntoLines (runs @ later)))"
proof (intro conjI)
  show "groupIntoLines [] = []" by (simp add: groupIntoLines_def)
  show "groupIntoLines (runs @ [r]) = placeRun (groupIntoLines runs) r"
    by (simp add: groupIntoLines_def)
  show "\<forall>k<length lines.
         \<bar>doubleSub (line_y (lines ! k)) (run_y r)\<bar> < 3
           \<and> (\<forall>j<k. \<not> \<bar>doubleSub (line_y (lines ! j)) (run_y r)\<bar> < 3)
         \<longrightarrow> placeRun lines r
               = lines[k := (lines ! k)\<lparr>line_items := line_items (lines ! k) @ [lineItemOf r]\<rparr>]"
    by (simp add: placeRun_def pushToLine_first_fit)
  show "(\<forall>k<length lines. \<not> \<bar>doubleSub (line_y (lines ! k)) (run_y r)\<bar> < 3)
         \<longrightarrow> placeRun lines r = lines @ [\<lparr> line_y = run_y r, line_items = [lineItemOf r] \<rparr>]"
    by (simp add: placeRun_def pushToLine_no_fit)
  show "prefix (map line_y (groupIntoLines runs)) (map line_y (groupIntoLines (runs @ later)))"
    by (simp add: groupIntoLines_def foldl_placeRun_prefix)
qed

lemma groupIntoLines_two_lines:
  "groupIntoLines
     [\<lparr> run_text = ''a'', run_x = 0, run_y = 10, run_hasEOL = False \<rparr>,
      \<lparr> run_text = ''b'', run_x = 0, run_y = 14, run_hasEOL = False \<rparr>]
   = [\<lparr> line_y = 10, line_items = [\<lparr> item_x = 0, item_text = ''a'' \<rparr>] \<rparr>,
      \<lparr> line_y = 14, line_items = [\<lparr> item_x = 0, item_text = ''b'' \<rparr>] \<rparr>]"
  by code_simp

lemma doubleSub_witness:
  "doubleSub 10 12 = - 2" "doubleSub 14 12 = 2" "doubleSub 10 17 = - 7" "doubleSub 14 17 = - 3"
  by code_simp+

theorem groupIntoLines_first_fit_witness:
  "groupIntoLines
     [\<lparr> run_text = ''a'', run_x = 0, run_y = 10, run_hasEOL = False \<rparr>,
      \<lparr> run_text = ''b'', run_x = 0, run_y = 14, run_hasEOL = False \<rparr>,
      \<lparr> run_text = ''c'', run_x = 40, run_y = 12, run_hasEOL = False \<rparr>]
   = [\<lparr> line_y = 10, line_items = [\<lparr> item_x = 0, item_text = ''a'' \<rparr>,
                                     \<lparr> item_x = 40, item_text = ''c'' \<rparr>] \<rparr>,
      \<lparr> line_y = 14, line_items = [\<lparr> item_x = 0, item_text = ''b'' \<rparr>] \<rparr>]
   \<and> groupIntoLines
     [\<lparr> run_text = ''a'', run_x = 0, run_y = 10, run_hasEOL = False \<rparr>,
      \<lparr> run_text = ''b'', run_x = 0, run_y = 14, run_hasEOL = False \<rparr>,
      \<lparr> run_text = ''d'', run_x = 40, run_y = 17, run_hasEOL = False \<rparr>]
   = [\<lparr> line_y = 10, line_items = [\<lparr> item_x = 0, item_text = ''a'' \<rparr>] \<rparr>,
      \<lparr> line_y = 14, line_items = [\<lparr> item_x = 0, item_text = ''b'' \<rparr>] \<rparr>,
      \<lparr> line_y = 17, line_items = [\<lparr> item_x = 40, item_text = ''d'' \<rparr>] \<rparr>]"
proof -
  let ?ra = "\<lparr> run_text = ''a'', run_x = 0, run_y = 10, run_hasEOL = False \<rparr>"
  let ?rb = "\<lparr> run_text = ''b'', run_x = 0, run_y = 14, run_hasEOL = False \<rparr>"
  let ?a = "\<lparr> line_y = 10, line_items = [\<lparr> item_x = 0, item_text = ''a'' \<rparr>] \<rparr>"
  let ?b = "\<lparr> line_y = 14, line_items = [\<lparr> item_x = 0, item_text = ''b'' \<rparr>] \<rparr>"
  let ?c = "\<lparr> run_text = ''c'', run_x = 40, run_y = 12, run_hasEOL = False \<rparr>"
  let ?d = "\<lparr> run_text = ''d'', run_x = 40, run_y = 17, run_hasEOL = False \<rparr>"
  have step: "groupIntoLines ([?ra, ?rb] @ [r]) = placeRun [?a, ?b] r" for r
    using groupIntoLines_first_fit
      [where runs = "[?ra, ?rb]" and r = r, THEN conjunct2, THEN conjunct1]
    by (simp only: groupIntoLines_two_lines)
  have first: "placeRun [?a, ?b] ?c
      = [?a\<lparr>line_items := line_items ?a @ [lineItemOf ?c]\<rparr>, ?b]"
    using groupIntoLines_first_fit
      [THEN conjunct2, THEN conjunct2, THEN conjunct1, rule_format,
        where lines = "[?a, ?b]" and r = ?c and k = 0]
    by (simp add: doubleSub_witness)
  have none: "\<not> \<bar>doubleSub (line_y ([?a, ?b] ! k)) (run_y ?d)\<bar> < 3"
    if "k < length [?a, ?b]" for k
  proof -
    from that have "k = 0 \<or> k = 1" by auto
    then show ?thesis by (auto simp: doubleSub_witness)
  qed
  have second: "placeRun [?a, ?b] ?d
      = [?a, ?b, \<lparr> line_y = run_y ?d, line_items = [lineItemOf ?d] \<rparr>]"
    using none groupIntoLines_first_fit
      [THEN conjunct2, THEN conjunct2, THEN conjunct2, THEN conjunct1, rule_format,
        where lines = "[?a, ?b]" and r = ?d]
    by simp
  from step [of ?c] step [of ?d] first second show ?thesis by (simp add: lineItemOf_def)
qed

section \<open>Sorting lines and runs\<close>

lemma sortItems_three:
  assumes "mset (line_items line)
             = {# \<lparr> item_x = 30, item_text = ''c'' \<rparr>,
                  \<lparr> item_x = 10, item_text = ''a'' \<rparr>,
                  \<lparr> item_x = 20, item_text = ''b'' \<rparr> #}"
  shows "line_items (sortItems line)
           = [\<lparr> item_x = 10, item_text = ''a'' \<rparr>,
              \<lparr> item_x = 20, item_text = ''b'' \<rparr>,
              \<lparr> item_x = 30, item_text = ''c'' \<rparr>]"
proof -
  let ?ys = "[\<lparr> item_x = 10, item_text = ''a'' \<rparr>,
              \<lparr> item_x = 20, item_text = ''b'' \<rparr>,
              \<lparr> item_x = 30, item_text = ''c'' \<rparr>]"
  from assms have m: "mset (line_items line) = mset ?ys" by simp
  then have "set (line_items line) = set ?ys" by (rule mset_eq_setD)
  then have "inj_on item_x (set (line_items line))" by (simp add: inj_on_def)
  moreover have "sorted (map item_x ?ys)" by simp
  ultimately have "sort_key item_x (line_items line) = ?ys"
    using m by (intro sort_key_inj_key_eq)
  then show ?thesis by (simp add: sortItems_def)
qed

lemma trim_a_b_c: "trim ''a b c'' = ''a b c''"
  by (simp add: trim_def isWhiteSpace_def)

text \<open>
  C3. After clustering, the lines are in ascending order of their representative Y and the
  items of every line in ascending order of X; both sorts only reorder, they change no
  line and no item. The text of a line is its items' texts joined with single spaces
  (and trimmed). So a line that clustering filled with the three runs at X = 30, 10, 20
  with the texts "c", "a", "b", in whatever order they arrived, reads "a b c".
\<close>

theorem reconstructLines_sorted:
  "sorted (map line_y (reconstructLines runs))
   \<and> (\<forall>line \<in> set (reconstructLines runs). sorted (map item_x (line_items line)))
   \<and> mset (reconstructLines runs) = mset (map sortItems (groupIntoLines runs))
   \<and> line_y (sortItems line) = line_y line
   \<and> mset (line_items (sortItems line)) = mset (line_items line)
   \<and> textOfLine line = trim (join '' '' (map item_text (line_items line)))
   \<and> (mset (line_items line)
         = {# \<lparr> item_x = 30, item_text = ''c'' \<rparr>,
              \<lparr> item_x = 10, item_text = ''a'' \<rparr>,
              \<lparr> item_x = 20, item_text = ''b'' \<rparr> #}
        \<longrightarrow> textOfLine (sortItems line) = ''a b c'')"
proof (intro conjI)
  have y: "line_y \<circ> sortItems = line_y" by (simp add: fun_eq_iff sortItems_def)
  show "sorted (map line_y (reconstructLines runs))"
    by (simp add: reconstructLines_def sortLines_def y)
  show "\<forall>line \<in> set (reconstructLines runs). sorted (map item_x (line_items line))"
    by (auto simp: reconstructLines_def sortItems_def)
  show "mset (reconstructLines runs) = mset (map sortItems (groupIntoLines runs))"
    by (simp add: reconstructLines_def sortLines_def)
  show "line_y (sortItems line) = line_y line" by (simp add: sortItems_def)
  show "mset (line_items (sortItems line)) = mset (line_items line)" by (simp add: sortItems_def)
  show "textOfLine line = trim (join '' '' (map item_text (line_items line)))"
    by (simp add: textOfLine_def)
  show "mset (line_items line)
         = {# \<lparr> item_x = 30, item_text = ''c'' \<rparr>,
              \<lparr> item_x = 10, item_text = ''a'' \<rparr>,
              \<lparr> item_x = 20, item_text = ''b'' \<rparr> #}
        \<longrightarrow> textOfLine (sortItems line) = ''a b c''"
    by (simp add: sortItems_three textOfLine_def trim_a_b_c)
qed

lemma reconstructLines_abcPage:
  "reconstructLines
     (positionedRuns 100
        [textItem ''c'' 30 50 None, textItem ''a'' 10 50 None,
         textItem ''top'' 0 90 None, textItem ''b'' 20 50 None])
     = [\<lparr> line_y = 10, line_items = [\<lparr> item_x = 0, item_text = ''top'' \<rparr>] \<rparr>,
        \<lparr> line_y = 50, line_items = [\<lparr> item_x = 10, item_text = ''a'' \<rparr>,
                                       \<lparr> item_x = 20, item_text = ''b'' \<rparr>,
                                       \<lparr> item_x = 30, item_text = ''c'' \<rparr>] \<rparr>]"
  by code_simp

lemma extractPageText_abcPage: "extractPageText abcPage = Inr [''top'', ''a b c'']"
  by code_simp

theorem reconstructLines_sorted_witness:
  "reconstructLines
     (positionedRuns 100
        [textItem ''c'' 30 50 None, textItem ''a'' 10 50 None,
         textItem ''top'' 0 90 None, textItem ''b'' 20 50 None])
     = [\<lparr> line_y = 10, line_items = [\<lparr> item_x = 0, item_text = ''top'' \<rparr>] \<rparr>,
        \<lparr> line_y = 50, line_items = [\<lparr> item_x = 10, item_text = ''a'' \<rparr>,
                                       \<lparr> item_x = 20, item_text = ''b'' \<rparr>,
                                       \<lparr> item_x = 30, item_text = ''c'' \<rparr>] \<rparr>]
   \<and> sorted (map item_x [\<lparr> item_x = 10, item_text = ''a'' \<rparr>,
                          \<lparr> item_x = 20, item_text = ''b'' \<rparr>,
                          \<lparr> item_x = 30, item_text = ''c'' \<rparr>])
   \<and> textOfLine
        (sortItems \<lparr> line_y = 50, line_items = [\<lparr> item_x = 30, item_text = ''c'' \<rparr>,
                                                \<lparr> item_x = 10, item_text = ''a'' \<rparr>,
                                                \<lparr> item_x = 20, item_text = ''b'' \<rparr>] \<rparr>)
       = ''a b c''
   \<and> extractPageText abcPage = Inr [''top'', ''a b c'']"
  using
    reconstructLines_sorted
      [where runs = "positionedRuns 100
                       [textItem ''c'' 30 50 None, textItem ''a'' 10 50 None,
                        textItem ''top'' 0 90 None, textItem ''b'' 20 50 None]"
         and line = "\<lparr> line_y = 50, line_items = [\<lparr> item_x = 30, item_text = ''c'' \<rparr>,
                                                   \<lparr> item_x = 10, item_text = ''a'' \<rparr>,
                                                   \<lparr> item_x = 20, item_text = ''b'' \<rparr>] \<rparr>"]
    extractPageText_abcPage
  by (simp add: reconstructLines_abcPage)

section \<open>Paragraph formation\<close>


text \<open>
  C4. A line should start a new paragraph exactly when its Y-gap to the previous line
  exceeds 10, and be appended after a space otherwise. On \<open>blankTopPage\<close>, with a
  blank line at Y = 0 and text at Y = 20 and Y = 25, the gap of "b" to the line of "a"
  is 5, so the rule gives the one paragraph "a b". The loop takes for "b", the second
  text that passed the filter, the Ys of the second and the first of the unfiltered
  lines, measures 20 - 0 and returns the two paragraphs "a" and "b": the index slip of
  C1, here splitting where C1's page joins.
\<close>

theorem extractPageText_blank_line_split:
  "extractPageText blankTopPage = Inr [''a'', ''b'']
   \<and> map (\<lambda>line. (line_y line, textOfLine line)) (linesOfPage blankTopPage)
       = [(0, []), (20, ''a''), (25, ''b'')]
   \<and> \<not> (25 - 20 > (10::real))
   \<and> spec_paragraphs [(0, []), (20, ''a''), (25, ''b'')] = [''a b'']"
  by code_simp

text \<open>
  C1. A line without text should be skipped entirely, so that the gap is measured from
  the previous line that has text. On \<open>blankLinePage\<close>, with text at Y = 0 and Y = 20
  and a blank line at Y = 5, that gives the two paragraphs "a" and "b". The loop pairs the
  texts that passed the filter with the Ys of the unfiltered lines at the same index,
  measures 5 - 0 for "b" and returns the single paragraph "a b".
\<close>

theorem extractPageText_blank_line_gap:
  "extractPageText blankLinePage = Inr [''a b'']
   \<and> map (\<lambda>line. (line_y line, textOfLine line)) (linesOfPage blankLinePage)
       = [(0, ''a''), (5, []), (20, ''b'')]
   \<and> spec_paragraphs [(0, ''a''), (5, []), (20, ''b'')] = [''a'', ''b'']"
  by code_simp

section \<open>Assembling the document and reporting progress\<close>

lemma foldl_textParagraph:
  "foldl (\<lambda>acc t. acc @ [textParagraph t]) children0 ps = children0 @ map textParagraph ps"
  by (induction ps arbitrary: children0) simp_all

lemma assemblePage_blocks:
  "pageIdx < length allPageTexts \<Longrightarrow>
     assemblePage allPageTexts children0 pageIdx
       = children0 @ blocksOfPage (Suc pageIdx) (allPageTexts ! pageIdx)
           @ (if Suc pageIdx < length allPageTexts then [pageBreakParagraph] else [])"
proof -
  have "(int pageIdx < int (length allPageTexts) - 1) = (Suc pageIdx < length allPageTexts)"
    by linarith
  then show ?thesis
    by (simp add: assemblePage_def blocksOfPage_def Let_def foldl_textParagraph)
qed

lemma foldl_assemblePage:
  "k \<le> length allPageTexts \<Longrightarrow>
     foldl (assemblePage allPageTexts) [] [0..<k]
       = concat (map (\<lambda>i. blocksOfPage (Suc i) (allPageTexts ! i)
                           @ (if Suc i < length allPageTexts then [pageBreakParagraph] else []))
                   [0..<k])"
proof (induction k)
  case 0
  then show ?case by simp
next
  case (Suc k)
  then have k: "k < length allPageTexts" and IH: "foldl (assemblePage allPageTexts) [] [0..<k]
       = concat (map (\<lambda>i. blocksOfPage (Suc i) (allPageTexts ! i)
                           @ (if Suc i < length allPageTexts then [pageBreakParagraph] else []))
                   [0..<k])" by simp_all
  have "foldl (assemblePage allPageTexts) [] [0..<Suc k]
      = assemblePage allPageTexts (foldl (assemblePage allPageTexts) [] [0..<k]) k"
    by simp
  also have "\<dots> = foldl (assemblePage allPageTexts) [] [0..<k]
      @ blocksOfPage (Suc k) (allPageTexts ! k)
      @ (if Suc k < length allPageTexts then [pageBreakParagraph] else [])"
    using k by (rule assemblePage_blocks)
  finally show ?case by (simp only: IH upt_Suc_append [OF le0] map_append concat_append
        list.map concat.simps append_Nil2 append_assoc)
qed

lemma assembleChildren_concat:
  "assembleChildren allPageTexts
     = concat (map (\<lambda>i. blocksOfPage (Suc i) (allPageTexts ! i)
                         @ (if Suc i < length allPageTexts then [pageBreakParagraph] else []))
                 [0..<length allPageTexts])"
  by (simp add: assembleChildren_def foldl_assemblePage)

lemma not_break_noTextParagraph: "\<not> isPageBreakMarker (noTextParagraph n)"
  by (simp add: isPageBreakMarker_def noTextParagraph_def)

lemma not_break_textParagraph: "\<not> isPageBreakMarker (textParagraph t)"
  by (simp add: isPageBreakMarker_def textParagraph_def)

lemma not_break_blocksOfPage: "filter isPageBreakMarker (blocksOfPage n ps) = []"
proof (cases "ps = []")
  case True
  then show ?thesis by (simp add: blocksOfPage_def not_break_noTextParagraph)
next
  case False
  have "filter isPageBreakMarker (map textParagraph ps) = []"
    by (induction ps) (simp_all add: not_break_textParagraph)
  with False show ?thesis by (simp add: blocksOfPage_def)
qed

lemma isPageBreakMarker_pageBreakParagraph: "isPageBreakMarker pageBreakParagraph"
  by (simp add: isPageBreakMarker_def pageBreakParagraph_def)

lemma count_breaks_upto:
  "k \<le> n \<Longrightarrow>
     length (filter isPageBreakMarker
        (concat (map (\<lambda>i. blocksOfPage (Suc i) (all ! i)
                         @ (if Suc i < n then [pageBreakParagraph] else [])) [0..<k])))
     = min k (n - 1)"
proof (induction k)
  case 0
  then show ?case by simp
next
  case (Suc k)
  then have "length (filter isPageBreakMarker
        (concat (map (\<lambda>i. blocksOfPage (Suc i) (all ! i)
                         @ (if Suc i < n then [pageBreakParagraph] else [])) [0..<k])))
     = min k (n - 1)" by simp
  moreover have "length (filter isPageBreakMarker
        (blocksOfPage (Suc k) (all ! k) @ (if Suc k < n then [pageBreakParagraph] else [])))
     = (if Suc k < n then 1 else 0)"
    by (simp add: not_break_blocksOfPage isPageBreakMarker_pageBreakParagraph)
  ultimately have "length (filter isPageBreakMarker
        (concat (map (\<lambda>i. blocksOfPage (Suc i) (all ! i)
                         @ (if Suc i < n then [pageBreakParagraph] else [])) [0..<Suc k])))
     = min k (n - 1) + (if Suc k < n then 1 else 0)"
    by simp
  also have "\<dots> = min (Suc k) (n - 1)" using Suc.prems by auto
  finally show ?case .
qed

lemma count_breaks_assembleChildren:
  "length (filter isPageBreakMarker (assembleChildren all)) = length all - 1"
  using count_breaks_upto [of "length all" "length all" all]
  by (simp add: assembleChildren_concat)

lemma extractAllPages_success:
  "extractAllPages supplied pdf pageNumbers trace acc = (trace', Inr all) \<Longrightarrow>
     trace' = trace @ concat (map (\<lambda>i. emit supplied
                 \<lparr> currentPage = i, totalPages = numPages pdf, stage = extracting \<rparr>
                 @ [PageRequested i]) pageNumbers)
     \<and> (\<exists>new. all = acc @ new \<and> list_all2 (pageExtracts pdf) pageNumbers new)"
proof (induction pageNumbers arbitrary: trace acc)
  case Nil
  then show ?case by simp
next
  case (Cons i rest)
  let ?trace = "trace @ emit supplied
                 \<lparr> currentPage = i, totalPages = numPages pdf, stage = extracting \<rparr>
                 @ [PageRequested i]"
  from Cons.prems obtain page paragraphs where
    page: "getPage pdf i = Inr page" "extractPageText page = Inr paragraphs"
    and rest: "extractAllPages supplied pdf rest ?trace (acc @ [paragraphs]) = (trace', Inr all)"
    by (auto simp: Let_def split: sum.splits)
  from Cons.IH [OF rest] obtain new where
    t: "trace' = ?trace @ concat (map (\<lambda>i. emit supplied
                 \<lparr> currentPage = i, totalPages = numPages pdf, stage = extracting \<rparr>
                 @ [PageRequested i]) rest)"
    and new: "all = (acc @ [paragraphs]) @ new" "list_all2 (pageExtracts pdf) rest new"
    by blast
  from page have "pageExtracts pdf i paragraphs" by (simp add: pageExtracts_def)
  with new have "all = acc @ (paragraphs # new) \<and> list_all2 (pageExtracts pdf) (i # rest) (paragraphs # new)"
    by simp
  with t show ?case by auto
qed


lemma list_all2_pageExtracts_upt:
  "list_all2 (pageExtracts pdf) [1..<Suc n] all \<Longrightarrow>
     length all = n \<and> (\<forall>i<n. pageExtracts pdf (Suc i) (all ! i))"
proof -
  assume a: "list_all2 (pageExtracts pdf) [1..<Suc n] all"
  then have len: "length all = n" by (auto dest: list_all2_lengthD simp del: upt_Suc)
  have "pageExtracts pdf (Suc i) (all ! i)" if "i < n" for i
  proof -
    from that have "[1..<Suc n] ! i = Suc i" by (simp add: nth_upt del: upt_Suc)
    with list_all2_nthD [OF a, of i] that show ?thesis by (simp del: upt_Suc)
  qed
  with len show ?thesis by simp
qed

lemma convertPdfToWord_success:
  assumes "convertPdfToWord supplied pdf = (trace, Inr doc)"
  shows "\<exists>all. list_all2 (pageExtracts pdf) [1..<Suc (numPages pdf)] all
          \<and> sections doc = [assembleChildren all]
          \<and> trace = concat (map (\<lambda>i. emit supplied
                 \<lparr> currentPage = i, totalPages = numPages pdf, stage = extracting \<rparr>
                 @ [PageRequested i]) [1..<Suc (numPages pdf)])
               @ emit supplied \<lparr> currentPage = numPages pdf, totalPages = numPages pdf,
                                 stage = generating \<rparr>"
proof -
  obtain trace' result where
    e: "extractAllPages supplied pdf [1..<Suc (numPages pdf)] [] [] = (trace', result)"
    by (cases "extractAllPages supplied pdf [1..<Suc (numPages pdf)] [] []") auto
  with assms obtain all where r: "result = Inr all"
    by (cases result) (auto simp: convertPdfToWord_def Let_def)
  from extractAllPages_success [OF e [unfolded r]]
  have t: "trace' = concat (map (\<lambda>i. emit supplied
                 \<lparr> currentPage = i, totalPages = numPages pdf, stage = extracting \<rparr>
                 @ [PageRequested i]) [1..<Suc (numPages pdf)])"
    and a: "list_all2 (pageExtracts pdf) [1..<Suc (numPages pdf)] all"
    by auto
  from assms e r have "trace = trace' @ emit supplied \<lparr> currentPage = numPages pdf,
       totalPages = numPages pdf, stage = generating \<rparr>"
    and "doc = \<lparr> sections = [assembleChildren all] \<rparr>"
    by (simp_all add: convertPdfToWord_def Let_def)
  with t a show ?thesis by auto
qed

text \<open>
  C5. In the document that a conversion of a document with at least one page returns,
  every page's text blocks are followed by one page-break marker, except the last
  page's; the text blocks hold no page break, so the number of page-break markers is
  \<open>totalPages - 1\<close>.
\<close>

theorem convertPdfToWord_page_breaks:
  assumes "convertPdfToWord supplied pdf = (trace, Inr doc)" and "1 \<le> numPages pdf"
  shows "\<exists>all. length all = numPages pdf
          \<and> concat (sections doc)
              = concat (map (\<lambda>i. blocksOfPage (Suc i) (all ! i)
                                  @ (if Suc i < numPages pdf then [pageBreakParagraph] else []))
                          [0..<numPages pdf])
          \<and> (\<forall>i<numPages pdf. filter isPageBreakMarker (blocksOfPage (Suc i) (all ! i)) = [])
          \<and> isPageBreakMarker pageBreakParagraph
          \<and> length (filter isPageBreakMarker (concat (sections doc))) = numPages pdf - 1"
proof -
  from convertPdfToWord_success [OF assms(1)] obtain all where
    a: "list_all2 (pageExtracts pdf) [1..<Suc (numPages pdf)] all"
    and d: "sections doc = [assembleChildren all]" by blast
  from list_all2_pageExtracts_upt [OF a] have len: "length all = numPages pdf" by simp
  from d len have "concat (sections doc)
              = concat (map (\<lambda>i. blocksOfPage (Suc i) (all ! i)
                                  @ (if Suc i < numPages pdf then [pageBreakParagraph] else []))
                          [0..<numPages pdf])"
    using assembleChildren_concat [of all] by simp
  moreover from d len have "length (filter isPageBreakMarker (concat (sections doc)))
      = numPages pdf - 1"
    using count_breaks_assembleChildren [of all] by simp
  ultimately show ?thesis
    using len not_break_blocksOfPage isPageBreakMarker_pageBreakParagraph by blast
qed

lemma decimalValue_snoc:
  "decimalValue (s @ [c]) = 10 * decimalValue s + (of_char c - 48)"
  by (simp add: decimalValue_def)

lemma digit_chars:
  "map (\<lambda>d. char_of (48 + d)) [0, 1, 2, 3, 4, 5, 6, 7, 8, 9 :: nat] = ''0123456789''"
  by code_simp

lemma digit_char:
  assumes "d < 10"
  shows "char_of (48 + d) \<in> set ''0123456789''"
    and "(of_char (char_of (48 + d) :: char) :: nat) = 48 + d"
proof -
  from assms have "d \<in> set [0, 1, 2, 3, 4, 5, 6, 7, 8, 9 :: nat]" by auto
  then have "char_of (48 + d)
      \<in> set (map (\<lambda>d. char_of (48 + d)) [0, 1, 2, 3, 4, 5, 6, 7, 8, 9 :: nat])"
    by (simp only: set_map image_eqI)
  then show "char_of (48 + d) \<in> set ''0123456789''" by (simp only: digit_chars)
  from assms show "(of_char (char_of (48 + d) :: char) :: nat) = 48 + d" by simp
qed

lemma digitsOf_decimal:
  "decimalValue (digitsOf n) = n
   \<and> digitsOf n \<noteq> []
   \<and> set (digitsOf n) \<subseteq> set ''0123456789''
   \<and> (n \<noteq> 0 \<longrightarrow> hd (digitsOf n) \<noteq> CHR ''0'')"
proof (induction n rule: digitsOf.induct)
  case (1 n)
  show ?case
  proof (cases "n < 10")
    case True
    then have d: "digitsOf n = [char_of (48 + n)]" by (subst digitsOf.simps) simp
    have zero: "(of_char CHR ''0'' :: nat) = 48" by simp
    have h: "char_of (48 + n) \<noteq> CHR ''0''" if "n \<noteq> 0"
    proof
      assume "char_of (48 + n) = CHR ''0''"
      then have "(of_char (char_of (48 + n) :: char) :: nat) = of_char CHR ''0''" by simp
      with digit_char(2) [OF True] zero that show False by simp
    qed
    have "decimalValue [char_of (48 + n)]
        = 10 * 0 + ((of_char (char_of (48 + n) :: char) :: nat) - 48)"
      by (simp only: decimalValue_def foldl.simps)
    also have "\<dots> = n" using digit_char(2) [OF True] by simp
    finally have v: "decimalValue (digitsOf n) = n" by (simp only: d)
    have st: "set (digitsOf n) \<subseteq> set ''0123456789''"
      using digit_char(1) [OF True] by (simp only: d list.set) blast
    from h have "n \<noteq> 0 \<longrightarrow> hd (digitsOf n) \<noteq> CHR ''0''" by (simp add: d)
    moreover have "digitsOf n \<noteq> []" by (simp only: d) simp
    ultimately show ?thesis using v st by blast
  next
    case False
    then have d: "digitsOf n = digitsOf (n div 10) @ [char_of (48 + n mod 10)]"
      by (subst digitsOf.simps) simp
    have m: "n mod 10 < 10" by simp
    from False have nz: "n div 10 \<noteq> 0" by simp
    from 1 [OF False] have IH: "decimalValue (digitsOf (n div 10)) = n div 10"
      "digitsOf (n div 10) \<noteq> []" "set (digitsOf (n div 10)) \<subseteq> set ''0123456789''"
      "hd (digitsOf (n div 10)) \<noteq> CHR ''0''"
      using nz by simp_all
    have "decimalValue (digitsOf n) = 10 * (n div 10) + n mod 10"
      by (simp only: d decimalValue_snoc IH(1) digit_char(2) [OF m] add_diff_cancel_left')
    then have v: "decimalValue (digitsOf n) = n" by simp
    have ne: "digitsOf n \<noteq> []" by (simp only: d) simp
    have st: "set (digitsOf n) \<subseteq> set ''0123456789''"
      using IH(3) digit_char(1) [OF m] by (simp only: d set_append list.set) auto
    have "hd (digitsOf n) = hd (digitsOf (n div 10))"
      using IH(2) by (simp add: d)
    with IH(4) have "hd (digitsOf n) \<noteq> CHR ''0''" by simp
    with v ne st show ?thesis by blast
  qed
qed

text \<open>
  C6. In the document that a conversion returns, page \<open>N\<close> (counted from 1) whose
  extracted paragraph list is empty contributes exactly one placeholder block and no
  ordinary text block; a page with paragraphs contributes one text block per paragraph,
  in order, and no placeholder. The placeholder is one italic grey run reading
  \<open>[Strona N - brak tekstu]\<close>, \<open>N\<close> written as its decimal numeral without leading
  zero. The text block of a paragraph is one plain run holding the paragraph's text,
  spaced 120 after. A placeholder is never equal to an ordinary text block, and neither
  is a page break.
\<close>

theorem convertPdfToWord_page_blocks:
  assumes "convertPdfToWord supplied pdf = (trace, Inr doc)"
  shows "\<exists>all. length all = numPages pdf
          \<and> (\<forall>i<numPages pdf. pageExtracts pdf (Suc i) (all ! i))
          \<and> concat (sections doc)
              = concat (map (\<lambda>i. (if all ! i = [] then [noTextParagraph (Suc i)]
                                   else map textParagraph (all ! i))
                                  @ (if Suc i < numPages pdf then [pageBreakParagraph] else []))
                          [0..<numPages pdf])
          \<and> (\<forall>n. children (noTextParagraph n)
                    = [TextRun \<lparr> text_of = ''[Strona '' @ digitsOf n @ '' - brak tekstu]'',
                                italics = Some True, color = Some ''999999'' \<rparr>])
          \<and> (\<forall>n t. noTextParagraph n \<noteq> textParagraph t
                    \<and> noTextParagraph n \<noteq> pageBreakParagraph
                    \<and> textParagraph t \<noteq> pageBreakParagraph)
          \<and> (\<forall>t. textParagraph t
                    = \<lparr> children = [TextRun \<lparr> text_of = t, italics = None, color = None \<rparr>],
                        spacing_after = Some 120 \<rparr>)
          \<and> (\<forall>n. spacing_after (noTextParagraph n) = None)
          \<and> pageBreakParagraph = \<lparr> children = [PageBreak], spacing_after = None \<rparr>
          \<and> (\<forall>n. decimalValue (digitsOf n) = n
                    \<and> digitsOf n \<noteq> []
                    \<and> set (digitsOf n) \<subseteq> set ''0123456789''
                    \<and> (n \<noteq> 0 \<longrightarrow> hd (digitsOf n) \<noteq> CHR ''0''))"
proof -
  from convertPdfToWord_success [OF assms] obtain all where
    a: "list_all2 (pageExtracts pdf) [1..<Suc (numPages pdf)] all"
    and d: "sections doc = [assembleChildren all]" by blast
  from list_all2_pageExtracts_upt [OF a] have len: "length all = numPages pdf"
    and pages: "\<forall>i<numPages pdf. pageExtracts pdf (Suc i) (all ! i)" by simp_all
  from d len have "concat (sections doc)
              = concat (map (\<lambda>i. (if all ! i = [] then [noTextParagraph (Suc i)]
                                   else map textParagraph (all ! i))
                                  @ (if Suc i < numPages pdf then [pageBreakParagraph] else []))
                          [0..<numPages pdf])"
    using assembleChildren_concat [of all] by (simp add: blocksOfPage_def)
  moreover have "\<forall>n. children (noTextParagraph n)
                    = [TextRun \<lparr> text_of = ''[Strona '' @ digitsOf n @ '' - brak tekstu]'',
                                italics = Some True, color = Some ''999999'' \<rparr>]"
    by (simp add: noTextParagraph_def)
  moreover have "\<forall>n t. noTextParagraph n \<noteq> textParagraph t
                    \<and> noTextParagraph n \<noteq> pageBreakParagraph
                    \<and> textParagraph t \<noteq> pageBreakParagraph"
    by (simp add: noTextParagraph_def textParagraph_def pageBreakParagraph_def)
  moreover have "\<forall>t. textParagraph t
                    = \<lparr> children = [TextRun \<lparr> text_of = t, italics = None, color = None \<rparr>],
                        spacing_after = Some 120 \<rparr>"
    by (simp add: textParagraph_def)
  moreover have "\<forall>n. spacing_after (noTextParagraph n) = None"
    by (simp add: noTextParagraph_def)
  moreover have "pageBreakParagraph = \<lparr> children = [PageBreak], spacing_after = None \<rparr>"
    by (simp add: pageBreakParagraph_def)
  moreover have "\<forall>n. decimalValue (digitsOf n) = n
                    \<and> digitsOf n \<noteq> []
                    \<and> set (digitsOf n) \<subseteq> set ''0123456789''
                    \<and> (n \<noteq> 0 \<longrightarrow> hd (digitsOf n) \<noteq> CHR ''0'')"
    using digitsOf_decimal by blast
  ultimately show ?thesis using len pages by blast
qed




lemma convertPdfToWord_twoPageDocument:
  "convertPdfToWord True twoPageDocument
     = ([OnProgress \<lparr> currentPage = 1, totalPages = 2, stage = extracting \<rparr>,
         PageRequested 1,
         OnProgress \<lparr> currentPage = 2, totalPages = 2, stage = extracting \<rparr>,
         PageRequested 2,
         OnProgress \<lparr> currentPage = 2, totalPages = 2, stage = generating \<rparr>],
        Inr \<lparr> sections =
                [[textParagraph ''Hello world'', pageBreakParagraph, noTextParagraph 2]] \<rparr>)"
  by code_simp



lemma numPages_twoPageDocument: "numPages twoPageDocument = 2"
  by (simp add: twoPageDocument_def)

lemma noTextParagraph_2:
  "noTextParagraph 2
     = \<lparr> children = [TextRun \<lparr> text_of = ''[Strona 2 - brak tekstu]'',
                                 italics = Some True, color = Some ''999999'' \<rparr>],
         spacing_after = None \<rparr>"
  by code_simp

theorem convertPdfToWord_page_breaks_witness:
  "1 \<le> numPages twoPageDocument
   \<and> snd (convertPdfToWord True twoPageDocument)
       = Inr \<lparr> sections =
                 [[textParagraph ''Hello world'', pageBreakParagraph, noTextParagraph 2]] \<rparr>
   \<and> length (filter isPageBreakMarker
               [textParagraph ''Hello world'', pageBreakParagraph, noTextParagraph 2])
       = 2 - 1"
proof -
  have h: "1 \<le> numPages twoPageDocument" by (simp add: numPages_twoPageDocument)
  from convertPdfToWord_page_breaks [OF convertPdfToWord_twoPageDocument h]
  have "length (filter isPageBreakMarker
          (concat (sections \<lparr> sections =
             [[textParagraph ''Hello world'', pageBreakParagraph, noTextParagraph 2]] \<rparr>)))
      = numPages twoPageDocument - 1"
    by blast
  then have "length (filter isPageBreakMarker
               [textParagraph ''Hello world'', pageBreakParagraph, noTextParagraph 2])
       = 2 - 1"
    by (simp only: numPages_twoPageDocument Document.simps concat.simps append_Nil2)
  with h show ?thesis by (simp only: convertPdfToWord_twoPageDocument snd_conv simp_thms)
qed

theorem convertPdfToWord_page_blocks_witness:
  "snd (convertPdfToWord True twoPageDocument)
       = Inr \<lparr> sections =
                 [[textParagraph ''Hello world'', pageBreakParagraph, noTextParagraph 2]] \<rparr>
   \<and> (\<exists>all. length all = 2
          \<and> pageExtracts twoPageDocument 1 (all ! 0)
          \<and> pageExtracts twoPageDocument 2 (all ! 1)
          \<and> [textParagraph ''Hello world'', pageBreakParagraph, noTextParagraph 2]
              = ((if all ! 0 = [] then [noTextParagraph 1] else map textParagraph (all ! 0))
                   @ [pageBreakParagraph])
                @ (if all ! 1 = [] then [noTextParagraph 2] else map textParagraph (all ! 1)))
   \<and> children (noTextParagraph 2)
       = [TextRun \<lparr> text_of = ''[Strona 2 - brak tekstu]'',
                     italics = Some True, color = Some ''999999'' \<rparr>]
   \<and> children (noTextParagraph 120)
       = [TextRun \<lparr> text_of = ''[Strona 120 - brak tekstu]'',
                     italics = Some True, color = Some ''999999'' \<rparr>]"
proof -
  from convertPdfToWord_page_blocks [OF convertPdfToWord_twoPageDocument]
  obtain all where len: "length all = numPages twoPageDocument"
    and pages: "\<forall>i<numPages twoPageDocument. pageExtracts twoPageDocument (Suc i) (all ! i)"
    and doc: "concat (sections \<lparr> sections =
                 [[textParagraph ''Hello world'', pageBreakParagraph, noTextParagraph 2]] \<rparr>)
              = concat (map (\<lambda>i. (if all ! i = [] then [noTextParagraph (Suc i)]
                                   else map textParagraph (all ! i))
                                  @ (if Suc i < numPages twoPageDocument
                                     then [pageBreakParagraph] else []))
                          [0..<numPages twoPageDocument])"
    by blast
  have upt2: "[0..<2] = [0, Suc 0]" by (simp add: upt_rec)
  from len have l: "length all = 2" by (simp add: numPages_twoPageDocument)
  have p1: "pageExtracts twoPageDocument 1 (all ! 0)"
    using pages [rule_format, of 0] by (simp add: numPages_twoPageDocument)
  have p2: "pageExtracts twoPageDocument 2 (all ! 1)"
    using pages [rule_format, of 1] by (simp add: numPages_twoPageDocument numeral_2_eq_2)
  from doc
  have d: "[textParagraph ''Hello world'', pageBreakParagraph, noTextParagraph 2]
      = ((if all ! 0 = [] then [noTextParagraph 1] else map textParagraph (all ! 0))
           @ [pageBreakParagraph])
        @ (if all ! 1 = [] then [noTextParagraph 2] else map textParagraph (all ! 1))"
    by (simp add: numPages_twoPageDocument upt2 numeral_2_eq_2)
  have A: "snd (convertPdfToWord True twoPageDocument)
       = Inr \<lparr> sections =
                 [[textParagraph ''Hello world'', pageBreakParagraph, noTextParagraph 2]] \<rparr>"
    by (simp only: convertPdfToWord_twoPageDocument snd_conv)
  have C: "children (noTextParagraph 2)
       = [TextRun \<lparr> text_of = ''[Strona 2 - brak tekstu]'',
                     italics = Some True, color = Some ''999999'' \<rparr>]"
    by (simp only: noTextParagraph_2 Paragraph.simps)
  from l p1 p2 d have B: "\<exists>all. length all = 2
          \<and> pageExtracts twoPageDocument 1 (all ! 0)
          \<and> pageExtracts twoPageDocument 2 (all ! 1)
          \<and> [textParagraph ''Hello world'', pageBreakParagraph, noTextParagraph 2]
              = ((if all ! 0 = [] then [noTextParagraph 1] else map textParagraph (all ! 0))
                   @ [pageBreakParagraph])
                @ (if all ! 1 = [] then [noTextParagraph 2] else map textParagraph (all ! 1))"
    by blast
  have D: "children (noTextParagraph 120)
       = [TextRun \<lparr> text_of = ''[Strona 120 - brak tekstu]'',
                     italics = Some True, color = Some ''999999'' \<rparr>]"
    by code_simp
  from A B C D show ?thesis by (intro conjI)
qed


end
